theory Spec2Isabelle
  imports Complex_Main
begin

section \<open>Dynamic time warping\<close>

text \<open>
  The functions \<open>dtw\<close>, \<open>dtw_numeric\<close>, \<open>dtw_c\<close>, \<open>min3\<close> and \<open>dtw_backtrace\<close> of the
  repository's Cython module for dynamic time warping.

  A cost is a double. A finite double is modelled as a real number, so rounding is
  outside this model; positive infinity, which a cost function may return to forbid a
  pairing (\<open>np.inf\<close>), is a value of its own. NaN and negative infinity are not
  modelled: costs are not negative, and the functions below that take a cost function
  only add and compare.
\<close>

datatype double =
  Finite real
  | PosInf

text \<open>
  Addition and comparison as IEEE arithmetic has them on these values: a sum with an
  infinite term is infinite, every finite value is below infinity, and infinity is not
  below itself.
\<close>

instantiation double :: "{plus, ord}"
begin

definition plus_double :: "double \<Rightarrow> double \<Rightarrow> double" where
  "a + b = (case (a, b) of (Finite u, Finite v) \<Rightarrow> Finite (u + v) | _ \<Rightarrow> PosInf)"

definition less_double :: "double \<Rightarrow> double \<Rightarrow> bool" where
  "a < b \<longleftrightarrow>
     (case (a, b) of
        (Finite u, Finite v) \<Rightarrow> u < v
      | (Finite u, PosInf) \<Rightarrow> True
      | (PosInf, _) \<Rightarrow> False)"

definition less_eq_double :: "double \<Rightarrow> double \<Rightarrow> bool" where
  "(a :: double) \<le> b \<longleftrightarrow> a < b \<or> a = b"

instance ..

end

text \<open>
  The tables \<open>Delta\<close> and \<open>D\<close> are two-dimensional numpy arrays of doubles, modelled row
  by row as lists of lists. Lengths and loop counters are C ints in the source
  (\<open>cdef int m = len(x)\<close>) and natural numbers here: the model follows the source for
  sequences shorter than \<open>2 ^ 31\<close>, and says nothing of what the source does with a
  length that the C int truncates.
\<close>

type_synonym matrix = "double list list"

datatype error =
  IndexOutOfBounds
  | NoOptionCoOptimal

text \<open>\<open>np.zeros((m, n))\<close>.\<close>

definition zeros :: "nat \<Rightarrow> nat \<Rightarrow> matrix" where
  "zeros m n = replicate m (replicate n (Finite 0))"

text \<open>\<open>M[i, j]\<close> read and written; \<open>M.shape[0]\<close> and \<open>M.shape[1]\<close>.\<close>

definition mget :: "matrix \<Rightarrow> nat \<Rightarrow> nat \<Rightarrow> double" where
  "mget M i j = M ! i ! j"

definition mput :: "matrix \<Rightarrow> nat \<Rightarrow> nat \<Rightarrow> double \<Rightarrow> matrix" where
  "mput M i j v = M[i := (M ! i)[j := v]]"

definition shape0 :: "matrix \<Rightarrow> nat" where
  "shape0 M = length M"

definition shape1 :: "matrix \<Rightarrow> nat" where
  "shape1 M = (case M of [] \<Rightarrow> 0 | r # _ \<Rightarrow> length r)"

text \<open>\<open>min3\<close>, with the comparisons of the source in their order.\<close>

definition min3 :: "double \<Rightarrow> double \<Rightarrow> double \<Rightarrow> double" where
  "min3 a b c = (if a < b then (if a < c then a else c) else (if b < c then b else c))"

text \<open>
  \<open>dtw_c(Delta, D)\<close> fills \<open>D\<close> in place and returns nothing; the model returns the
  filled table. The index \<open>-1\<close> wraps around to the last row or column. On an empty
  axis there is no last entry: the source reads and writes outside the buffer there
  (bounds checks are switched off) and raises nothing. The model does not follow the
  source there; it answers \<open>IndexOutOfBounds\<close>, and so do \<open>dtw\<close>, \<open>dtw_numeric\<close> and
  \<open>dtw_backtrace\<close> on an empty sequence, whatever the source returns after that write.
  \<open>range(k - 2, -1, -1)\<close> counts \<open>k - 2, ..., 0\<close>, the reverse of \<open>[0..<k - 1]\<close>.
\<close>

definition dtw_c :: "matrix \<Rightarrow> matrix \<Rightarrow> error + matrix" where
  "dtw_c Delta D =
     (let m = shape0 D; n = shape1 D in
      if m = 0 \<or> n = 0 then Inl IndexOutOfBounds
      else
        let D1 = mput D (m - 1) (n - 1) (mget Delta (m - 1) (n - 1));
            D2 = fold (\<lambda>i D. mput D i (n - 1) (mget Delta i (n - 1) + mget D (i + 1) (n - 1)))
                   (rev [0..<m - 1]) D1;
            D3 = fold (\<lambda>j D. mput D (m - 1) j (mget Delta (m - 1) j + mget D (m - 1) (j + 1)))
                   (rev [0..<n - 1]) D2;
            D4 = fold (\<lambda>i D. fold (\<lambda>j D. mput D i j
                         (mget Delta i j +
                          min3 (mget D (i + 1) (j + 1)) (mget D i (j + 1)) (mget D (i + 1) j)))
                       (rev [0..<n - 1]) D)
                   (rev [0..<m - 1]) D3
        in Inr D4)"

text \<open>
  The pairwise costs, as \<open>dtw\<close> and \<open>dtw_backtrace\<close> both compute them first:
  \<open>Delta = np.zeros((m, n))\<close> and then \<open>Delta_view[i, j] = delta(x[i], y[j])\<close> for
  \<open>i\<close> in \<open>range(m)\<close> and \<open>j\<close> in \<open>range(n)\<close>. \<open>delta\<close> is a Python callable; the model
  takes a total function into the costs.
\<close>

definition pairwise_costs :: "'a list \<Rightarrow> 'b list \<Rightarrow> ('a \<Rightarrow> 'b \<Rightarrow> double) \<Rightarrow> matrix" where
  "pairwise_costs x y delta =
     (let m = length x; n = length y in
      fold (\<lambda>i M. fold (\<lambda>j M. mput M i j (delta (x ! i) (y ! j))) [0..<n] M)
        [0..<m] (zeros m n))"

text \<open>\<open>dtw(x, y, delta)\<close>: the pairwise costs, the table, and its entry \<open>D[0, 0]\<close>.\<close>

definition dtw :: "'a list \<Rightarrow> 'b list \<Rightarrow> ('a \<Rightarrow> 'b \<Rightarrow> double) \<Rightarrow> error + double" where
  "dtw x y delta =
     (let m = length x; n = length y;
          Delta = pairwise_costs x y delta
      in case dtw_c Delta (zeros m n) of
           Inl e \<Rightarrow> Inl e
         | Inr D \<Rightarrow> Inr (mget D 0 0))"

text \<open>
  \<open>dtw_numeric(x, y)\<close>: the same, with the cost of a pair written out as a comparison
  and a subtraction of the two numbers. The numbers of \<open>x\<close> and \<open>y\<close> are finite here
  (the difference of two infinities would be NaN). The two \<open>prange\<close> loops write every
  cell of \<open>Delta\<close> once, each from its own iteration, so the order of the iterations
  does not show in the table; the model runs them in index order.
\<close>

definition dtw_numeric :: "real list \<Rightarrow> real list \<Rightarrow> error + double" where
  "dtw_numeric x y =
     (let m = length x; n = length y;
          Delta = fold (\<lambda>i M. fold (\<lambda>j M.
                      if x ! i > y ! j then mput M i j (Finite (x ! i - y ! j))
                      else mput M i j (Finite (y ! j - x ! i))) [0..<n] M)
                    [0..<m] (zeros m n)
      in case dtw_c Delta (zeros m n) of
           Inl e \<Rightarrow> Inl e
         | Inr D \<Rightarrow> Inr (mget D 0 0))"

subsection \<open>Backtracing\<close>

definition BACKTRACE_TOL :: double where
  "BACKTRACE_TOL = Finite (1 / 100000)"

text \<open>
  The three tests of the first loop of \<open>dtw_backtrace\<close>, in the order of the source:
  the diagonal step, the step in \<open>i\<close>, the step in \<open>j\<close>. The sums are exact here and the
  tolerance is the number \<open>1 / 100000\<close>; in the source the sums are rounded and the
  tolerance is the double nearest to it, so that a sum of about \<open>1.4e11\<close> or more absorbs
  the tolerance and a test can fail in the source where it passes here.
\<close>

definition replacement_test :: "matrix \<Rightarrow> matrix \<Rightarrow> nat \<Rightarrow> nat \<Rightarrow> bool" where
  "replacement_test Delta D i j \<longleftrightarrow>
     mget D i j < mget Delta i j + mget D (i + 1) (j + 1) + BACKTRACE_TOL"

definition copy_y_test :: "matrix \<Rightarrow> matrix \<Rightarrow> nat \<Rightarrow> nat \<Rightarrow> bool" where
  "copy_y_test Delta D i j \<longleftrightarrow>
     mget D i j < mget Delta i j + mget D (i + 1) j + BACKTRACE_TOL"

definition copy_x_test :: "matrix \<Rightarrow> matrix \<Rightarrow> nat \<Rightarrow> nat \<Rightarrow> bool" where
  "copy_x_test Delta D i j \<longleftrightarrow>
     mget D i j < mget Delta i j + mget D i (j + 1) + BACKTRACE_TOL"

text \<open>
  The first loop, \<open>while(i < m - 1 and j < n - 1)\<close>. It returns the indices and the trace
  it stops with, or the \<open>ValueError\<close> of the source when no test passes.
\<close>

function dtw_backtrace_walk ::
  "matrix \<Rightarrow> matrix \<Rightarrow> nat \<Rightarrow> nat \<Rightarrow> nat \<Rightarrow> nat \<Rightarrow> (nat \<times> nat) list
     \<Rightarrow> error + nat \<times> nat \<times> (nat \<times> nat) list" where
  "dtw_backtrace_walk Delta D m n i j trace =
     (if i < m - 1 \<and> j < n - 1 then
        (if replacement_test Delta D i j
           then dtw_backtrace_walk Delta D m n (i + 1) (j + 1) (trace @ [(i, j)])
         else if copy_y_test Delta D i j
           then dtw_backtrace_walk Delta D m n (i + 1) j (trace @ [(i, j)])
         else if copy_x_test Delta D i j
           then dtw_backtrace_walk Delta D m n i (j + 1) (trace @ [(i, j)])
         else Inl NoOptionCoOptimal)
      else Inr (i, j, trace))"
  by pat_completeness auto
termination
  by (relation "measure (\<lambda>(Delta, D, m, n, i, j, trace). (m - i) + (n - j))") auto

text \<open>The second loop, \<open>while(i < m - 1)\<close>, and the third, \<open>while(j < n - 1)\<close>.\<close>

function dtw_backtrace_rows ::
  "nat \<Rightarrow> nat \<Rightarrow> nat \<Rightarrow> (nat \<times> nat) list \<Rightarrow> nat \<times> (nat \<times> nat) list" where
  "dtw_backtrace_rows m i j trace =
     (if i < m - 1 then dtw_backtrace_rows m (i + 1) j (trace @ [(i, j)]) else (i, trace))"
  by pat_completeness auto
termination
  by (relation "measure (\<lambda>(m, i, j, trace). m - i)") auto

function dtw_backtrace_cols ::
  "nat \<Rightarrow> nat \<Rightarrow> nat \<Rightarrow> (nat \<times> nat) list \<Rightarrow> nat \<times> (nat \<times> nat) list" where
  "dtw_backtrace_cols n i j trace =
     (if j < n - 1 then dtw_backtrace_cols n i (j + 1) (trace @ [(i, j)]) else (j, trace))"
  by pat_completeness auto
termination
  by (relation "measure (\<lambda>(n, i, j, trace). n - j)") auto

text \<open>
  The backtrace proper (from \<open>i = 0\<close> to \<open>return trace\<close>), as a function of the two
  tables it reads.
\<close>

definition dtw_backtrace_tables ::
  "matrix \<Rightarrow> matrix \<Rightarrow> nat \<Rightarrow> nat \<Rightarrow> error + (nat \<times> nat) list" where
  "dtw_backtrace_tables Delta D m n =
     (case dtw_backtrace_walk Delta D m n 0 0 [] of
        Inl e \<Rightarrow> Inl e
      | Inr (i, j, trace) \<Rightarrow>
          let (i', trace') = dtw_backtrace_rows m i j trace;
              (j', trace'') = dtw_backtrace_cols n i' j trace'
          in Inr (trace'' @ [(m - 1, n - 1)]))"

definition dtw_backtrace ::
  "'a list \<Rightarrow> 'b list \<Rightarrow> ('a \<Rightarrow> 'b \<Rightarrow> double) \<Rightarrow> error + (nat \<times> nat) list" where
  "dtw_backtrace x y delta =
     (let m = length x; n = length y;
          Delta = pairwise_costs x y delta
      in case dtw_c Delta (zeros m n) of
           Inl e \<Rightarrow> Inl e
         | Inr D \<Rightarrow> dtw_backtrace_tables Delta D m n)"

text \<open>
  One step of a warping path: neither index decreases, neither grows by more than one,
  and at least one of them grows.
\<close>

definition unit_step :: "nat \<times> nat \<Rightarrow> nat \<times> nat \<Rightarrow> bool" where
  "unit_step p q \<longleftrightarrow>
     fst p \<le> fst q \<and> fst q \<le> fst p + 1 \<and> snd p \<le> snd q \<and> snd q \<le> snd p + 1 \<and>
     (fst p < fst q \<or> snd p < snd q)"

text \<open>
  The invariant of the three loops: the trace so far, followed by the current cell,
  starts at \<open>(0, 0)\<close> and advances by unit steps.
\<close>

definition warp_prefix :: "(nat \<times> nat) list \<Rightarrow> nat \<Rightarrow> nat \<Rightarrow> bool" where
  "warp_prefix trace i j \<longleftrightarrow>
     successively unit_step (trace @ [(i, j)]) \<and> hd (trace @ [(i, j)]) = (0, 0)"

text \<open>
  At cell \<open>(i, j)\<close> none of the three tests of the first loop passes.
\<close>

definition no_option :: "matrix \<Rightarrow> matrix \<Rightarrow> nat \<Rightarrow> nat \<Rightarrow> bool" where
  "no_option Delta D i j \<longleftrightarrow>
     \<not> replacement_test Delta D i j \<and> \<not> copy_y_test Delta D i j \<and> \<not> copy_x_test Delta D i j"

text \<open>
  Two costs that are equal up to the tolerance, \<open>|a - b| < 1e-5\<close>; no cost is within
  the tolerance of an infinite one (the difference is infinite, or NaN). At cell
  \<open>(i, j)\<close> some option is co-optimal when the stored optimum \<open>D[i, j]\<close> is within the
  tolerance of what one of the three steps costs.
\<close>

definition within_tolerance :: "double \<Rightarrow> double \<Rightarrow> bool" where
  "within_tolerance a b \<longleftrightarrow>
     (case (a, b) of (Finite u, Finite v) \<Rightarrow> \<bar>u - v\<bar> < 1 / 100000 | _ \<Rightarrow> False)"

definition some_option_co_optimal :: "matrix \<Rightarrow> matrix \<Rightarrow> nat \<Rightarrow> nat \<Rightarrow> bool" where
  "some_option_co_optimal Delta D i j \<longleftrightarrow>
     within_tolerance (mget D i j) (mget Delta i j + mget D (i + 1) (j + 1)) \<or>
     within_tolerance (mget D i j) (mget Delta i j + mget D (i + 1) j) \<or>
     within_tolerance (mget D i j) (mget Delta i j + mget D i (j + 1))"

text \<open>
  The cells at which the body of the first loop runs: \<open>(0, 0)\<close> when the loop is
  entered at all, and after each step the next cell while the loop condition holds.
\<close>

inductive walk_visits :: "matrix \<Rightarrow> matrix \<Rightarrow> nat \<Rightarrow> nat \<Rightarrow> nat \<Rightarrow> nat \<Rightarrow> bool"
  for Delta D m n where
  first_cell: "0 < m - 1 \<Longrightarrow> 0 < n - 1 \<Longrightarrow> walk_visits Delta D m n 0 0"
| after_replacement:
    "walk_visits Delta D m n i j \<Longrightarrow> replacement_test Delta D i j \<Longrightarrow>
     i + 1 < m - 1 \<Longrightarrow> j + 1 < n - 1 \<Longrightarrow> walk_visits Delta D m n (i + 1) (j + 1)"
| after_copy_y:
    "walk_visits Delta D m n i j \<Longrightarrow> \<not> replacement_test Delta D i j \<Longrightarrow>
     copy_y_test Delta D i j \<Longrightarrow> i + 1 < m - 1 \<Longrightarrow> walk_visits Delta D m n (i + 1) j"
| after_copy_x:
    "walk_visits Delta D m n i j \<Longrightarrow> \<not> replacement_test Delta D i j \<Longrightarrow>
     \<not> copy_y_test Delta D i j \<Longrightarrow> copy_x_test Delta D i j \<Longrightarrow>
     j + 1 < n - 1 \<Longrightarrow> walk_visits Delta D m n i (j + 1)"

subsection \<open>Predicates on tables\<close>

text \<open>A table of \<open>m\<close> rows of \<open>n\<close> entries each.\<close>

definition shaped :: "nat \<Rightarrow> nat \<Rightarrow> matrix \<Rightarrow> bool" where
  "shaped m n M \<longleftrightarrow> length M = m \<and> (\<forall>i<m. length (M ! i) = n)"

text \<open>
  The body of the innermost loop of \<open>dtw_c\<close>, and the equation it establishes at the
  cell it writes.
\<close>

definition cell_step :: "matrix \<Rightarrow> nat \<Rightarrow> nat \<Rightarrow> matrix \<Rightarrow> matrix" where
  "cell_step Delta i j D =
     mput D i j (mget Delta i j + min3 (mget D (i + 1) (j + 1)) (mget D i (j + 1)) (mget D (i + 1) j))"

definition recurrence_at :: "matrix \<Rightarrow> matrix \<Rightarrow> nat \<Rightarrow> nat \<Rightarrow> bool" where
  "recurrence_at Delta R i j \<longleftrightarrow>
     mget R i j = mget Delta i j + min3 (mget R (i + 1) (j + 1)) (mget R i (j + 1)) (mget R (i + 1) j)"

text \<open>No entry is infinite.\<close>

definition finite_table :: "nat \<Rightarrow> nat \<Rightarrow> matrix \<Rightarrow> bool" where
  "finite_table m n M \<longleftrightarrow> (\<forall>i<m. \<forall>j<n. \<exists>r. mget M i j = Finite r)"

section \<open>Tree edits\<close>

text \<open>
  Modelled from the spec: the module \<open>tree_edits\<close> (the edits \<open>Replacement\<close>,
  \<open>Insertion\<close>, \<open>Deletion\<close> and their \<open>apply\<close>) is not among the sources; the tree
  edit notebook only calls it and records what it returned. The definitions of this
  section follow the data model and the edit semantics of the specification.

  A tree is its node labels in preorder (depth first, the root at index 0) together
  with, for every node index, the ordered list of the indices of its children. A node is
  identified by its index, so an edit that adds or removes a node renumbers the nodes
  behind it.
\<close>

type_synonym 'a tree = "'a list \<times> nat list list"

text \<open>
  Modelled from the spec: the three atomic edits (\<open>tree_edits.Replacement\<close>,
  \<open>tree_edits.Insertion\<close>, \<open>tree_edits.Deletion\<close>), with the arguments the notebook
  passes. \<open>Replacement i l\<close> relabels node \<open>i\<close> with \<open>l\<close>. \<open>Insertion p c l k\<close> inserts
  a new node labelled \<open>l\<close> as child number \<open>c\<close> of node \<open>p\<close>; the \<open>k\<close> children of \<open>p\<close>
  from position \<open>c\<close> on become the children of the new node. \<open>Deletion i\<close> removes
  node \<open>i\<close>; its children take its place among the children of its parent.
\<close>

datatype 'a edit =
  Replacement nat 'a
  | Insertion nat nat 'a nat
  | Deletion nat

text \<open>
  Modelled from the spec: the shape error of an edit whose indices do not fit the tree
  it is applied to.
\<close>

datatype edit_error = ShapeError

text \<open>
  Modelled from the spec: the renumbering of the nodes behind an inserted or deleted
  node. The indices from \<open>k\<close> on move up by one; those behind \<open>k\<close> move down by one.
\<close>

definition shift_up :: "nat \<Rightarrow> nat \<Rightarrow> nat" where
  "shift_up k c = (if k \<le> c then c + 1 else c)"

definition shift_down :: "nat \<Rightarrow> nat \<Rightarrow> nat" where
  "shift_down k c = (if k < c then c - 1 else c)"

text \<open>
  Modelled from the spec: the last node of the subtree of \<open>p\<close> in preorder, which is
  \<open>p\<close> itself when it has no children, else the last node below its last child. In
  preorder a child's index is larger than its parent's; the descent stops where the
  adjacency breaks this.
\<close>

function last_descendant :: "nat list list \<Rightarrow> nat \<Rightarrow> nat" where
  "last_descendant adj p =
     (if p < length adj \<and> adj ! p \<noteq> [] \<and> p < last (adj ! p) \<and> last (adj ! p) < length adj
      then last_descendant adj (last (adj ! p)) else p)"
  by pat_completeness auto
termination
  by (relation "measure (\<lambda>(adj, p). length adj - p)") auto

text \<open>
  Modelled from the spec: \<open>Replacement.apply\<close>. The label of node \<open>i\<close> changes; the
  shape of the tree does not.
\<close>

definition apply_replacement :: "nat \<Rightarrow> 'a \<Rightarrow> 'a tree \<Rightarrow> edit_error + 'a tree" where
  "apply_replacement i l T =
     (case T of (nodes, adj) \<Rightarrow>
        if length adj \<noteq> length nodes \<or> length nodes \<le> i then Inl ShapeError
        else Inr (nodes[i := l], adj))"

text \<open>
  Modelled from the spec: \<open>Insertion.apply\<close>. The new node stands where the child at
  position \<open>c\<close> stood, or behind the whole subtree of \<open>p\<close> when it is appended as
  the last child. Every index from there on moves up by one;
  the run of \<open>k\<close> children from position \<open>c\<close> leaves the row of \<open>p\<close> and becomes the row of
  the new node.
\<close>

definition apply_insertion :: "nat \<Rightarrow> nat \<Rightarrow> 'a \<Rightarrow> nat \<Rightarrow> 'a tree \<Rightarrow> edit_error + 'a tree" where
  "apply_insertion p c l k T =
     (case T of (nodes, adj) \<Rightarrow>
        if length adj \<noteq> length nodes \<or> length nodes \<le> p \<or> length (adj ! p) < c + k
        then Inl ShapeError
        else
          let new = (if c < length (adj ! p) then adj ! p ! c else last_descendant adj p + 1);
              shifted = map (map (shift_up new)) adj;
              children = shifted ! p;
              adopted = take k (drop c children);
              kept = take c children @ [new] @ drop (c + k) children;
              rows = shifted[p := kept]
          in Inr (take new nodes @ [l] @ drop new nodes,
                  take new rows @ [adopted] @ drop new rows))"

text \<open>
  Modelled from the spec: \<open>Deletion.apply\<close>. In every row the deleted node is replaced
  by its own children, in their order; its
  label and its row are removed, and every index behind it moves down by one.
\<close>

definition apply_deletion :: "nat \<Rightarrow> 'a tree \<Rightarrow> edit_error + 'a tree" where
  "apply_deletion i T =
     (case T of (nodes, adj) \<Rightarrow>
        if length adj \<noteq> length nodes \<or> length nodes \<le> i then Inl ShapeError
        else
          let spliced = map (\<lambda>row. concat (map (\<lambda>c. if c = i then adj ! i else [c]) row)) adj;
              rows = take i spliced @ drop (i + 1) spliced
          in Inr (take i nodes @ drop (i + 1) nodes, map (map (shift_down i)) rows))"

text \<open>
  Modelled from the spec: \<open>edit.apply(nodes, adj)\<close>, which returns the edited tree as
  a new tree.
\<close>

fun apply_edit :: "'a edit \<Rightarrow> 'a tree \<Rightarrow> edit_error + 'a tree" where
  "apply_edit (Replacement i l) T = apply_replacement i l T"
| "apply_edit (Insertion p c l k) T = apply_insertion p c l k T"
| "apply_edit (Deletion i) T = apply_deletion i T"

text \<open>
  Modelled from the spec: \<open>script.apply(nodes, adj)\<close>, which applies the edits of a
  script one after the other, each to the tree the edits before it left, and stops at
  the first edit that does not fit.
\<close>

fun apply_script :: "'a edit list \<Rightarrow> 'a tree \<Rightarrow> edit_error + 'a tree" where
  "apply_script [] T = Inr T"
| "apply_script (e # es) T =
     (case apply_edit e T of Inl err \<Rightarrow> Inl err | Inr T' \<Rightarrow> apply_script es T')"

text \<open>
  Modelled from the spec: \<open>tree_utils.tree_to_string\<close>, the textual form of a tree,
  \<open>label(child, child, ...)\<close> with no parentheses behind a
  node without children. The recursion descends along the adjacency; it is cut off
  after as many levels as the tree has nodes, which is deeper than any tree is, and
  answers \<open>None\<close> when it is cut off or meets an index outside the tree.
\<close>

fun join_comma :: "string list \<Rightarrow> string" where
  "join_comma [] = []"
| "join_comma [s] = s"
| "join_comma (s # t # ss) = s @ '', '' @ join_comma (t # ss)"

primrec subtree_to_string :: "nat \<Rightarrow> string list \<Rightarrow> nat list list \<Rightarrow> nat \<Rightarrow> string option" where
  "subtree_to_string 0 nodes adj i = None"
| "subtree_to_string (Suc depth) nodes adj i =
     (if length nodes \<le> i \<or> length adj \<le> i then None
      else if adj ! i = [] then Some (nodes ! i)
      else case those (map (subtree_to_string depth nodes adj) (adj ! i)) of
             None \<Rightarrow> None
           | Some children \<Rightarrow> Some (nodes ! i @ ''('' @ join_comma children @ '')''))"

definition tree_to_string :: "string tree \<Rightarrow> string option" where
  "tree_to_string T = (case T of (nodes, adj) \<Rightarrow> subtree_to_string (length nodes) nodes adj 0)"

section \<open>Properties of dynamic time warping\<close>

text \<open>
  The three loops are recursive functions whose equations would unfold for ever as
  rewrite rules; they are applied by hand, one call at a time.
\<close>

declare dtw_backtrace_walk.simps [simp del]
declare dtw_backtrace_rows.simps [simp del]
declare dtw_backtrace_cols.simps [simp del]

text \<open>The definitions that evaluating a run on a concrete input unfolds.\<close>

lemmas dtw_eval = dtw_def dtw_numeric_def dtw_backtrace_def pairwise_costs_def dtw_c_def
  dtw_backtrace_tables_def plus_double_def less_double_def zeros_def mget_def mput_def shape0_def shape1_def min3_def
  replacement_test_def copy_y_test_def copy_x_test_def BACKTRACE_TOL_def Let_def
  dtw_backtrace_walk.simps dtw_backtrace_rows.simps dtw_backtrace_cols.simps upt_rec numeral_nat

subsection \<open>The table of pairwise costs\<close>

text \<open>
  The two nested loops fill \<open>Delta\<close> row by row; when they are done, \<open>Delta[i][j]\<close> is
  \<open>delta(x[i], y[j])\<close>.
\<close>

lemma fold_mput_row:
  assumes "i < length M" and "k \<le> length (M ! i)"
  shows "fold (\<lambda>j M. mput M i j (g j)) [0..<k] M = M[i := map g [0..<k] @ drop k (M ! i)]"
  using assms(2)
proof (induction k)
  case 0
  show ?case by simp
next
  case (Suc k)
  then have k: "k < length (M ! i)" by simp
  let ?r = "map g [0..<k] @ drop k (M ! i)"
  have "?r[k := g k] = map g [0..<k] @ (drop k (M ! i))[0 := g k]"
    by (simp add: list_update_append)
  also have "(drop k (M ! i))[0 := g k] = g k # drop (Suc k) (M ! i)"
    using k by (simp add: Cons_nth_drop_Suc [symmetric])
  finally have r: "?r[k := g k] = map g [0..<Suc k] @ drop (Suc k) (M ! i)" by simp
  from Suc k have "fold (\<lambda>j M. mput M i j (g j)) [0..<Suc k] M = mput (M[i := ?r]) i k (g k)"
    by simp
  also have "\<dots> = M[i := ?r[k := g k]]"
    using assms(1) by (simp add: mput_def)
  finally show ?case by (simp only: r)
qed

lemma pairwise_rows:
  assumes "k \<le> m"
  shows "fold (\<lambda>i M. fold (\<lambda>j M. mput M i j (f i j)) [0..<n] M) [0..<k] (zeros m n)
           = map (\<lambda>i. map (f i) [0..<n]) [0..<k] @ replicate (m - k) (replicate n (Finite 0))"
  using assms
proof (induction k)
  case 0
  show ?case by (simp add: zeros_def)
next
  case (Suc k)
  let ?done = "map (\<lambda>i. map (f i) [0..<n]) [0..<k]"
  let ?S = "?done @ replicate (m - k) (replicate n (Finite 0))"
  from Suc.prems have k: "k < m" by simp
  then have row: "?S ! k = replicate n (Finite 0)" and len: "k < length ?S"
    by (simp_all add: nth_append)
  from k have rest: "replicate (m - k) (replicate n (Finite 0))
      = replicate n (Finite 0) # replicate (m - Suc k) (replicate n (Finite 0))"
    by (cases "m - k") (simp_all add: Suc_diff_Suc)
  have "fold (\<lambda>j M. mput M k j (f k j)) [0..<n] ?S = ?S[k := map (f k) [0..<n] @ drop n (?S ! k)]"
    using len by (intro fold_mput_row) (simp_all add: row)
  also have "\<dots> = ?S[k := map (f k) [0..<n]]"
    by (simp add: row)
  also have "\<dots> = ?done @ map (f k) [0..<n] # replicate (m - Suc k) (replicate n (Finite 0))"
    by (subst rest) (simp add: list_update_append)
  finally have step: "fold (\<lambda>j M. mput M k j (f k j)) [0..<n] ?S
      = map (\<lambda>i. map (f i) [0..<n]) [0..<Suc k] @ replicate (m - Suc k) (replicate n (Finite 0))"
    by simp
  from Suc k show ?case by (simp add: step)
qed

lemma pairwise_costs_table: "pairwise_costs x y delta = map (\<lambda>a. map (delta a) y) x"
proof -
  have "pairwise_costs x y delta
      = map (\<lambda>i. map (\<lambda>j. delta (x ! i) (y ! j)) [0..<length y]) [0..<length x]"
    by (simp add: pairwise_costs_def Let_def pairwise_rows)
  also have "\<dots> = map (\<lambda>a. map (delta a) y) x"
    by (intro nth_equalityI) simp_all
  finally show ?thesis .
qed

subsection \<open>The table of distances\<close>

text \<open>
  Each of the loops of \<open>dtw_c\<close> runs downwards over its index, writes one cell per
  iteration and reads only cells written before. Each lemma says what holds of the
  cells written so far and that every other cell is as it was.
\<close>

lemma shaped_zeros: "shaped m n (zeros m n)"
  by (simp add: shaped_def zeros_def)

lemma shaped_mput: "shaped m n M \<Longrightarrow> shaped m n (mput M i j v)"
  by (cases "i < length M") (auto simp: shaped_def mput_def nth_list_update list_update_beyond)

lemma mget_mput:
  assumes "shaped m n M" and "i < m" and "j < n"
  shows "mget (mput M i j v) i' j' = (if i' = i \<and> j' = j then v else mget M i' j')"
  using assms by (auto simp: shaped_def mget_def mput_def nth_list_update)

lemma rev_upt_Suc: "rev [0..<Suc k] = k # rev [0..<k]"
  by simp

lemma column_loop:
  assumes "shaped m n S" and "0 < n" and "k \<le> m - 1"
    and "R = fold (\<lambda>i D. mput D i (n - 1) (mget Delta i (n - 1) + mget D (i + 1) (n - 1)))
                  (rev [0..<k]) S"
  shows "shaped m n R
       \<and> (\<forall>i<k. mget R i (n - 1) = mget Delta i (n - 1) + mget R (i + 1) (n - 1))
       \<and> (\<forall>i j. \<not> (i < k \<and> j = n - 1) \<longrightarrow> mget R i j = mget S i j)"
  using assms(1,3,4)
proof (induction k arbitrary: S R)
  case 0
  then show ?case by simp
next
  case (Suc k)
  let ?step = "\<lambda>i D. mput D i (n - 1) (mget Delta i (n - 1) + mget D (i + 1) (n - 1))"
  let ?S' = "?step k S"
  let ?R = "fold ?step (rev [0..<k]) ?S'"
  from Suc.prems have k: "k < m" "k \<le> m - 1" by simp_all
  have s': "shaped m n ?S'" using Suc.prems(1) by (rule shaped_mput)
  have get': "mget ?S' i j = (if i = k \<and> j = n - 1
      then mget Delta k (n - 1) + mget S (k + 1) (n - 1) else mget S i j)" for i j
    using Suc.prems(1) k(1) assms(2) by (simp add: mget_mput)
  from Suc.IH [OF s' k(2) refl]
  have shape: "shaped m n ?R"
    and rec: "\<forall>i<k. mget ?R i (n - 1) = mget Delta i (n - 1) + mget ?R (i + 1) (n - 1)"
    and same: "\<forall>i j. \<not> (i < k \<and> j = n - 1) \<longrightarrow> mget ?R i j = mget ?S' i j"
    by blast+
  have here: "mget ?R k (n - 1) = mget Delta k (n - 1) + mget ?R (k + 1) (n - 1)"
    using same get' by simp
  have "\<forall>i<Suc k. mget ?R i (n - 1) = mget Delta i (n - 1) + mget ?R (i + 1) (n - 1)"
    using rec here by (auto simp: less_Suc_eq)
  moreover have "\<forall>i j. \<not> (i < Suc k \<and> j = n - 1) \<longrightarrow> mget ?R i j = mget S i j"
    using same get' by (auto simp: less_Suc_eq)
  moreover have "R = ?R" using Suc.prems(3) by (simp only: rev_upt_Suc fold_simps)
  ultimately show ?case using shape by blast
qed

lemma row_loop:
  assumes "shaped m n S" and "0 < m" and "k \<le> n - 1"
    and "R = fold (\<lambda>j D. mput D (m - 1) j (mget Delta (m - 1) j + mget D (m - 1) (j + 1)))
                  (rev [0..<k]) S"
  shows "shaped m n R
       \<and> (\<forall>j<k. mget R (m - 1) j = mget Delta (m - 1) j + mget R (m - 1) (j + 1))
       \<and> (\<forall>i j. \<not> (i = m - 1 \<and> j < k) \<longrightarrow> mget R i j = mget S i j)"
  using assms(1,3,4)
proof (induction k arbitrary: S R)
  case 0
  then show ?case by simp
next
  case (Suc k)
  let ?step = "\<lambda>j D. mput D (m - 1) j (mget Delta (m - 1) j + mget D (m - 1) (j + 1))"
  let ?S' = "?step k S"
  let ?R = "fold ?step (rev [0..<k]) ?S'"
  from Suc.prems have k: "k < n" "k \<le> n - 1" by simp_all
  have s': "shaped m n ?S'" using Suc.prems(1) by (rule shaped_mput)
  have get': "mget ?S' i j = (if i = m - 1 \<and> j = k
      then mget Delta (m - 1) k + mget S (m - 1) (k + 1) else mget S i j)" for i j
    using Suc.prems(1) k(1) assms(2) by (simp add: mget_mput)
  from Suc.IH [OF s' k(2) refl]
  have shape: "shaped m n ?R"
    and rec: "\<forall>j<k. mget ?R (m - 1) j = mget Delta (m - 1) j + mget ?R (m - 1) (j + 1)"
    and same: "\<forall>i j. \<not> (i = m - 1 \<and> j < k) \<longrightarrow> mget ?R i j = mget ?S' i j"
    by blast+
  have here: "mget ?R (m - 1) k = mget Delta (m - 1) k + mget ?R (m - 1) (k + 1)"
    using same get' by simp
  have "\<forall>j<Suc k. mget ?R (m - 1) j = mget Delta (m - 1) j + mget ?R (m - 1) (j + 1)"
    using rec here by (auto simp: less_Suc_eq)
  moreover have "\<forall>i j. \<not> (i = m - 1 \<and> j < Suc k) \<longrightarrow> mget ?R i j = mget S i j"
    using same get' by (auto simp: less_Suc_eq)
  moreover have "R = ?R" using Suc.prems(3) by (simp only: rev_upt_Suc fold_simps)
  ultimately show ?case using shape by blast
qed

lemma inner_loop:
  assumes "shaped m n S" and "i < m" and "k \<le> n - 1"
    and "R = fold (cell_step Delta i) (rev [0..<k]) S"
  shows "shaped m n R
       \<and> (\<forall>j<k. recurrence_at Delta R i j)
       \<and> (\<forall>i' j. \<not> (i' = i \<and> j < k) \<longrightarrow> mget R i' j = mget S i' j)"
  using assms(1,3,4)
proof (induction k arbitrary: S R)
  case 0
  then show ?case by simp
next
  case (Suc k)
  let ?S' = "cell_step Delta i k S"
  let ?R = "fold (cell_step Delta i) (rev [0..<k]) ?S'"
  from Suc.prems have k: "k < n" "k \<le> n - 1" by simp_all
  have s': "shaped m n ?S'" using Suc.prems(1) unfolding cell_step_def by (rule shaped_mput)
  have get': "mget ?S' i' j = (if i' = i \<and> j = k
      then mget Delta i k + min3 (mget S (i + 1) (k + 1)) (mget S i (k + 1)) (mget S (i + 1) k)
      else mget S i' j)" for i' j
    using Suc.prems(1) k(1) assms(2) by (simp add: cell_step_def mget_mput)
  from Suc.IH [OF s' k(2) refl]
  have shape: "shaped m n ?R"
    and rec: "\<forall>j<k. recurrence_at Delta ?R i j"
    and same: "\<forall>i' j. \<not> (i' = i \<and> j < k) \<longrightarrow> mget ?R i' j = mget ?S' i' j"
    by blast+
  have here: "recurrence_at Delta ?R i k"
    unfolding recurrence_at_def using same get' by simp
  have "\<forall>j<Suc k. recurrence_at Delta ?R i j"
    using rec here by (auto simp: less_Suc_eq)
  moreover have "\<forall>i' j. \<not> (i' = i \<and> j < Suc k) \<longrightarrow> mget ?R i' j = mget S i' j"
    using same get' by (auto simp: less_Suc_eq)
  moreover have "R = ?R" using Suc.prems(3) by (simp only: rev_upt_Suc fold_simps)
  ultimately show ?case using shape by blast
qed

lemma outer_loop:
  assumes "shaped m n S" and "k \<le> m - 1"
    and "R = fold (\<lambda>i D. fold (cell_step Delta i) (rev [0..<n - 1]) D) (rev [0..<k]) S"
  shows "shaped m n R
       \<and> (\<forall>i<k. \<forall>j<n - 1. recurrence_at Delta R i j)
       \<and> (\<forall>i j. \<not> (i < k \<and> j < n - 1) \<longrightarrow> mget R i j = mget S i j)"
  using assms(1,2,3)
proof (induction k arbitrary: S R)
  case 0
  then show ?case by simp
next
  case (Suc k)
  let ?row = "\<lambda>i D. fold (cell_step Delta i) (rev [0..<n - 1]) D"
  let ?S' = "?row k S"
  let ?R = "fold ?row (rev [0..<k]) ?S'"
  from Suc.prems have k: "k < m" "k \<le> m - 1" by simp_all
  from inner_loop [OF Suc.prems(1) k(1) order_refl refl, of Delta]
  have s': "shaped m n ?S'"
    and rec': "\<forall>j<n - 1. recurrence_at Delta ?S' k j"
    and same': "\<forall>i j. \<not> (i = k \<and> j < n - 1) \<longrightarrow> mget ?S' i j = mget S i j"
    by blast+
  from Suc.IH [OF s' k(2) refl]
  have shape: "shaped m n ?R"
    and rec: "\<forall>i<k. \<forall>j<n - 1. recurrence_at Delta ?R i j"
    and same: "\<forall>i j. \<not> (i < k \<and> j < n - 1) \<longrightarrow> mget ?R i j = mget ?S' i j"
    by blast+
  have here: "\<forall>j<n - 1. recurrence_at Delta ?R k j"
    using rec' same by (simp add: recurrence_at_def)
  have "\<forall>i<Suc k. \<forall>j<n - 1. recurrence_at Delta ?R i j"
    using rec here by (auto simp: less_Suc_eq)
  moreover have "\<forall>i j. \<not> (i < Suc k \<and> j < n - 1) \<longrightarrow> mget ?R i j = mget S i j"
    using same same' by (auto simp: less_Suc_eq)
  moreover have "R = ?R" using Suc.prems(3) by (simp only: rev_upt_Suc fold_simps)
  ultimately show ?case using shape by blast
qed

text \<open>
  What \<open>dtw_c\<close> leaves in \<open>D\<close>: the recurrence of dynamic time warping, from the last
  cell backwards.
\<close>

lemma shape_of_shaped: "shaped m n D \<Longrightarrow> 0 < m \<Longrightarrow> shape0 D = m \<and> shape1 D = n"
  by (cases D) (auto simp: shaped_def shape0_def shape1_def)

lemma dtw_c_recurrence:
  assumes "shaped m n D0" and "0 < m" and "0 < n"
  shows "\<exists>R. dtw_c Delta D0 = Inr R \<and> shaped m n R
       \<and> mget R (m - 1) (n - 1) = mget Delta (m - 1) (n - 1)
       \<and> (\<forall>i<m - 1. mget R i (n - 1) = mget Delta i (n - 1) + mget R (i + 1) (n - 1))
       \<and> (\<forall>j<n - 1. mget R (m - 1) j = mget Delta (m - 1) j + mget R (m - 1) (j + 1))
       \<and> (\<forall>i<m - 1. \<forall>j<n - 1. recurrence_at Delta R i j)"
proof -
  define D1 where "D1 = mput D0 (m - 1) (n - 1) (mget Delta (m - 1) (n - 1))"
  define D2 where "D2 = fold (\<lambda>i D. mput D i (n - 1) (mget Delta i (n - 1) + mget D (i + 1) (n - 1)))
                   (rev [0..<m - 1]) D1"
  define D3 where "D3 = fold (\<lambda>j D. mput D (m - 1) j (mget Delta (m - 1) j + mget D (m - 1) (j + 1)))
                   (rev [0..<n - 1]) D2"
  define D4 where "D4 = fold (\<lambda>i D. fold (cell_step Delta i) (rev [0..<n - 1]) D) (rev [0..<m - 1]) D3"
  have run: "dtw_c Delta D0 = Inr D4"
    using shape_of_shaped [OF assms(1,2)] assms(2,3)
    by (simp add: dtw_c_def Let_def D4_def D3_def D2_def D1_def cell_step_def [abs_def])
  have s1: "shaped m n D1" unfolding D1_def using assms(1) by (rule shaped_mput)
  have g1: "mget D1 (m - 1) (n - 1) = mget Delta (m - 1) (n - 1)"
    unfolding D1_def using assms by (simp add: mget_mput)
  from column_loop [OF s1 assms(3) order_refl D2_def]
  have s2: "shaped m n D2"
    and r2: "\<forall>i<m - 1. mget D2 i (n - 1) = mget Delta i (n - 1) + mget D2 (i + 1) (n - 1)"
    and k2: "\<forall>i j. \<not> (i < m - 1 \<and> j = n - 1) \<longrightarrow> mget D2 i j = mget D1 i j"
    by blast+
  from row_loop [OF s2 assms(2) order_refl D3_def]
  have s3: "shaped m n D3"
    and r3: "\<forall>j<n - 1. mget D3 (m - 1) j = mget Delta (m - 1) j + mget D3 (m - 1) (j + 1)"
    and k3: "\<forall>i j. \<not> (i = m - 1 \<and> j < n - 1) \<longrightarrow> mget D3 i j = mget D2 i j"
    by blast+
  from outer_loop [OF s3 order_refl D4_def]
  have s4: "shaped m n D4"
    and r4: "\<forall>i<m - 1. \<forall>j<n - 1. recurrence_at Delta D4 i j"
    and k4: "\<forall>i j. \<not> (i < m - 1 \<and> j < n - 1) \<longrightarrow> mget D4 i j = mget D3 i j"
    by blast+
  have corner: "mget D4 (m - 1) (n - 1) = mget Delta (m - 1) (n - 1)"
    using k4 k3 k2 g1 by simp
  have column: "mget D4 i (n - 1) = mget Delta i (n - 1) + mget D4 (i + 1) (n - 1)" if "i < m - 1" for i
  proof -
    have "mget D4 i (n - 1) = mget D2 i (n - 1)"
      using k4 k3 that by simp
    moreover have "mget D4 (i + 1) (n - 1) = mget D2 (i + 1) (n - 1)"
      using k4 k3 by simp
    ultimately show ?thesis using r2 that by simp
  qed
  have row: "mget D4 (m - 1) j = mget Delta (m - 1) j + mget D4 (m - 1) (j + 1)" if "j < n - 1" for j
  proof -
    have "mget D4 (m - 1) j = mget D3 (m - 1) j" "mget D4 (m - 1) (j + 1) = mget D3 (m - 1) (j + 1)"
      using k4 by simp_all
    then show ?thesis using r3 that by simp
  qed
  from run s4 corner column row r4 show ?thesis by blast
qed

subsection \<open>Finite and infinite entries\<close>

lemma plus_Finite [simp]: "Finite a + Finite b = Finite (a + b)"
  by (simp add: plus_double_def)

lemma less_Finite [simp]: "Finite a < Finite b \<longleftrightarrow> a < b"
  by (simp add: less_double_def)

lemma plus_eq_Finite:
  "u + v = Finite d \<longleftrightarrow> (\<exists>p q. u = Finite p \<and> v = Finite q \<and> d = p + q)"
  by (cases u; cases v) (auto simp: plus_double_def)

lemma min3_cases: "min3 a b c = a \<or> min3 a b c = b \<or> min3 a b c = c"
  by (simp add: min3_def)

lemma min3_le_first: "min3 (Finite r) b c = Finite q \<Longrightarrow> q \<le> r"
  by (cases b; cases c) (auto simp: min3_def less_double_def split: if_splits)

lemma min3_Finite: "min3 (Finite a) (Finite b) (Finite c) = Finite (min a (min b c))"
  by (simp add: min3_def min_def)

text \<open>With finite pairwise costs every entry of \<open>D\<close> is finite.\<close>

lemma recurrence_finite:
  assumes Delta: "finite_table m n Delta"
    and corner: "mget R (m - 1) (n - 1) = mget Delta (m - 1) (n - 1)"
    and column: "\<forall>i<m - 1. mget R i (n - 1) = mget Delta i (n - 1) + mget R (i + 1) (n - 1)"
    and row: "\<forall>j<n - 1. mget R (m - 1) j = mget Delta (m - 1) j + mget R (m - 1) (j + 1)"
    and inner: "\<forall>i<m - 1. \<forall>j<n - 1. recurrence_at Delta R i j"
  shows "finite_table m n R"
proof -
  have "\<exists>r. mget R i j = Finite r" if "i < m" and "j < n" for i j
    using that
  proof (induction "(m - i) + (n - j)" arbitrary: i j rule: less_induct)
    case less
    from Delta less.prems obtain d where d: "mget Delta i j = Finite d"
      by (auto simp: finite_table_def)
    consider (corner) "i = m - 1" "j = n - 1"
      | (column) "i < m - 1" "j = n - 1"
      | (row) "i = m - 1" "j < n - 1"
      | (inner) "i < m - 1" "j < n - 1"
      using less.prems by linarith
    then show ?case
    proof cases
      case corner
      with d show ?thesis using \<open>mget R (m - 1) (n - 1) = mget Delta (m - 1) (n - 1)\<close> by simp
    next
      case column
      then have "\<exists>r. mget R (i + 1) j = Finite r"
        using less.prems by (intro less.hyps) simp_all
      with column d assms(3) show ?thesis by auto
    next
      case row
      then have "\<exists>r. mget R i (j + 1) = Finite r"
        using less.prems by (intro less.hyps) simp_all
      with row d assms(4) show ?thesis by auto
    next
      case inner
      then have "\<exists>r. mget R (i + 1) (j + 1) = Finite r" "\<exists>r. mget R i (j + 1) = Finite r"
        "\<exists>r. mget R (i + 1) j = Finite r"
        using less.prems by (intro less.hyps; simp)+
      then obtain a b c where "mget R (i + 1) (j + 1) = Finite a" "mget R i (j + 1) = Finite b"
        "mget R (i + 1) j = Finite c" by blast
      moreover from inner assms(5) have "recurrence_at Delta R i j" by simp
      ultimately show ?thesis using d by (simp add: recurrence_at_def min3_Finite)
    qed
  qed
  then show ?thesis by (simp add: finite_table_def)
qed

lemma finite_pairwise_costs:
  assumes "\<forall>a\<in>set x. \<forall>b\<in>set y. \<exists>r. delta a b = Finite r"
  shows "finite_table (length x) (length y) (pairwise_costs x y delta)"
  using assms by (simp add: finite_table_def pairwise_costs_table mget_def)

text \<open>
  In the exact arithmetic of this model, where \<open>D[i, j]\<close> is finite the first test of
  the backtrace passes: \<open>D[i, j]\<close> is at most
  \<open>Delta[i, j] + D[i+1, j+1]\<close>. Where it is infinite, none of the three passes: infinity
  is below nothing. So at a cell that satisfies the recurrence, no test passes exactly
  when the stored optimum is infinite, and exactly when no option costs what the stored
  optimum is, up to the tolerance.
\<close>

lemma finite_first_test:
  assumes "recurrence_at Delta D i j" and "mget D i j = Finite d"
  shows "replacement_test Delta D i j"
proof -
  from assms have
    "mget Delta i j + min3 (mget D (i + 1) (j + 1)) (mget D i (j + 1)) (mget D (i + 1) j) = Finite d"
    by (simp add: recurrence_at_def)
  then obtain p q where p: "mget Delta i j = Finite p"
    and q: "min3 (mget D (i + 1) (j + 1)) (mget D i (j + 1)) (mget D (i + 1) j) = Finite q"
    and d: "d = p + q"
    unfolding plus_eq_Finite by blast
  show ?thesis
  proof (cases "mget D (i + 1) (j + 1)")
    case (Finite r)
    with q have "q \<le> r" by (auto dest: min3_le_first)
    with Finite p d assms(2) show ?thesis
      by (simp add: replacement_test_def BACKTRACE_TOL_def)
  next
    case PosInf
    with p assms(2) show ?thesis
      by (simp add: replacement_test_def BACKTRACE_TOL_def plus_double_def less_double_def)
  qed
qed

lemma no_option_iff_infinite:
  assumes "recurrence_at Delta D i j"
  shows "no_option Delta D i j \<longleftrightarrow> mget D i j = PosInf"
proof
  assume "no_option Delta D i j"
  then show "mget D i j = PosInf"
    using finite_first_test [OF assms] by (cases "mget D i j") (auto simp: no_option_def)
next
  assume "mget D i j = PosInf"
  then show "no_option Delta D i j"
    by (simp add: no_option_def replacement_test_def copy_y_test_def copy_x_test_def less_double_def)
qed

lemma no_option_iff_none_co_optimal:
  assumes "recurrence_at Delta D i j"
  shows "no_option Delta D i j \<longleftrightarrow> \<not> some_option_co_optimal Delta D i j"
proof (cases "mget D i j")
  case (Finite d)
  from assms have "mget D i j = mget Delta i j + mget D (i + 1) (j + 1)
      \<or> mget D i j = mget Delta i j + mget D i (j + 1)
      \<or> mget D i j = mget Delta i j + mget D (i + 1) j"
    using min3_cases [of "mget D (i + 1) (j + 1)" "mget D i (j + 1)" "mget D (i + 1) j"]
    by (auto simp: recurrence_at_def)
  moreover have "within_tolerance (mget D i j) (mget D i j)"
    using Finite by (simp add: within_tolerance_def)
  ultimately have "some_option_co_optimal Delta D i j"
    unfolding some_option_co_optimal_def by metis
  moreover have "\<not> no_option Delta D i j"
    using no_option_iff_infinite [OF assms] Finite by simp
  ultimately show ?thesis by blast
next
  case PosInf
  then show ?thesis
    using no_option_iff_infinite [OF assms]
    by (simp add: some_option_co_optimal_def within_tolerance_def)
qed

text \<open>The cells at which the first loop of the backtrace reads satisfy the recurrence.\<close>

lemma dtw_table_recurrence:
  assumes "dtw_c Delta (zeros m n) = Inr D" and "i < m - 1" and "j < n - 1"
  shows "recurrence_at Delta D i j"
proof -
  from assms(2,3) have "0 < m" "0 < n" by auto
  from dtw_c_recurrence [OF shaped_zeros this, of Delta] assms show ?thesis by auto
qed

lemma finite_costs_finite_table:
  assumes "\<forall>a\<in>set x. \<forall>b\<in>set y. \<exists>r. delta a b = Finite r"
    and "dtw_c (pairwise_costs x y delta) (zeros (length x) (length y)) = Inr D"
    and "x \<noteq> []" and "y \<noteq> []"
  shows "finite_table (length x) (length y) D"
proof -
  let ?m = "length x" and ?n = "length y" and ?Delta = "pairwise_costs x y delta"
  from assms(3,4) have pos: "0 < ?m" "0 < ?n" by auto
  from dtw_c_recurrence [OF shaped_zeros pos, of ?Delta] assms(2)
  have corner: "mget D (?m - 1) (?n - 1) = mget ?Delta (?m - 1) (?n - 1)"
    and column: "\<forall>i<?m - 1. mget D i (?n - 1) = mget ?Delta i (?n - 1) + mget D (i + 1) (?n - 1)"
    and row: "\<forall>j<?n - 1. mget D (?m - 1) j = mget ?Delta (?m - 1) j + mget D (?m - 1) (j + 1)"
    and inner: "\<forall>i<?m - 1. \<forall>j<?n - 1. recurrence_at ?Delta D i j"
    by auto
  have "finite_table ?m ?n ?Delta" using assms(1) by (rule finite_pairwise_costs)
  from recurrence_finite [OF this corner column row inner] show ?thesis .
qed

lemma finite_costs_co_optimal:
  assumes "\<forall>a\<in>set x. \<forall>b\<in>set y. \<exists>r. delta a b = Finite r"
    and "dtw_c (pairwise_costs x y delta) (zeros (length x) (length y)) = Inr D"
    and "i < length x - 1" and "j < length y - 1"
  shows "replacement_test (pairwise_costs x y delta) D i j"
    and "some_option_co_optimal (pairwise_costs x y delta) D i j"
proof -
  from assms(3,4) have "x \<noteq> []" "y \<noteq> []" by auto
  from assms(3,4) have "i < length x" "j < length y" by simp_all
  with finite_costs_finite_table [OF assms(1,2) \<open>x \<noteq> []\<close> \<open>y \<noteq> []\<close>]
  obtain d where d: "mget D i j = Finite d"
    unfolding finite_table_def by blast
  from dtw_table_recurrence [OF assms(2,3,4)]
  have r: "recurrence_at (pairwise_costs x y delta) D i j" .
  from finite_first_test [OF r d]
  show "replacement_test (pairwise_costs x y delta) D i j" .
  from no_option_iff_infinite [OF r] no_option_iff_none_co_optimal [OF r] d
  show "some_option_co_optimal (pairwise_costs x y delta) D i j" by simp
qed


subsection \<open>The two entry points compute the same distance\<close>

lemma dtw_c_zeros_Inr: "0 < m \<Longrightarrow> 0 < n \<Longrightarrow> \<exists>D. dtw_c Delta (zeros m n) = Inr D"
  using dtw_c_recurrence [OF shaped_zeros, of m n Delta] by blast

text \<open>
  Claim C9. For non-empty sequences of (finite) numbers \<open>x\<close> and \<open>y\<close>,
  \<open>dtw_numeric(x, y)\<close> returns the value that \<open>dtw(x, y, delta)\<close> returns for
  \<open>delta(a, b) = |a - b|\<close>: both build the table of the pairwise absolute differences,
  run \<open>dtw_c\<close> on it and return the entry \<open>D[0, 0]\<close> of the table it fills.
\<close>

theorem dtw_numeric_refines_dtw:
  assumes "x \<noteq> []" and "y \<noteq> []"
  shows "dtw_numeric x y = dtw x y (\<lambda>a b. Finite \<bar>a - b\<bar>) \<and>
         (\<exists>D. dtw_c (map (\<lambda>a. map (\<lambda>b. Finite \<bar>a - b\<bar>) y) x) (zeros (length x) (length y)) = Inr D \<and>
              dtw_numeric x y = Inr (mget D 0 0))"
proof -
  have cell: "(if a > b then mput M i j (Finite (a - b)) else mput M i j (Finite (b - a)))
                = mput M i j (Finite \<bar>a - b\<bar>)"
    for a b :: real and M i j
    by (simp add: abs_if)
  have eq: "dtw_numeric x y = dtw x y (\<lambda>a b. Finite \<bar>a - b\<bar>)"
    by (simp only: dtw_numeric_def dtw_def pairwise_costs_def cell Let_def)
  from assms have "0 < length x" "0 < length y" by simp_all
  then obtain D where
    "dtw_c (pairwise_costs x y (\<lambda>a b. Finite \<bar>a - b\<bar>)) (zeros (length x) (length y)) = Inr D"
    using dtw_c_zeros_Inr by blast
  then have "dtw_c (map (\<lambda>a. map (\<lambda>b. Finite \<bar>a - b\<bar>) y) x) (zeros (length x) (length y)) = Inr D"
    and "dtw x y (\<lambda>a b. Finite \<bar>a - b\<bar>) = Inr (mget D 0 0)"
    by (simp_all add: dtw_def Let_def pairwise_costs_table)
  with eq show ?thesis by simp
qed

text \<open>The theorem at \<open>x = [0, 0, 0]\<close>, \<open>y = [0, 5]\<close>, where both return 5.\<close>

theorem dtw_numeric_refines_dtw_witness:
  "[0, 0, 0] \<noteq> ([] :: real list) \<and> [0, 5] \<noteq> ([] :: real list) \<and>
   dtw_numeric [0, 0, 0] [0, 5] = dtw [0, 0, 0] [0, 5] (\<lambda>a b. Finite \<bar>a - b\<bar>) \<and>
   dtw_numeric [0, 0, 0] [0, 5] = Inr (Finite 5)"
proof -
  have "dtw_numeric [0, 0, 0] [0, 5] = Inr (Finite 5)"
    by (simp add: dtw_eval)
  with dtw_numeric_refines_dtw [of "[0, 0, 0]" "[0, 5]"] show ?thesis by simp
qed

subsection \<open>A cell without a co-optimal option raises\<close>

lemma walk_visits_inside:
  "walk_visits Delta D m n i j \<Longrightarrow> i < m - 1 \<and> j < n - 1"
  by (induction rule: walk_visits.induct) auto

lemma walk_visits_state:
  "walk_visits Delta D m n i j \<Longrightarrow>
   \<exists>trace. dtw_backtrace_walk Delta D m n 0 0 [] = dtw_backtrace_walk Delta D m n i j trace"
proof (induction rule: walk_visits.induct)
  case first_cell
  show ?case by blast
next
  case (after_replacement i j)
  then obtain trace where
    "dtw_backtrace_walk Delta D m n 0 0 [] = dtw_backtrace_walk Delta D m n i j trace"
    by blast
  with after_replacement walk_visits_inside [OF after_replacement(1)] show ?case
    by (auto simp: dtw_backtrace_walk.simps [of Delta D m n i j])
next
  case (after_copy_y i j)
  then obtain trace where
    "dtw_backtrace_walk Delta D m n 0 0 [] = dtw_backtrace_walk Delta D m n i j trace"
    by blast
  with after_copy_y walk_visits_inside [OF after_copy_y(1)] show ?case
    by (auto simp: dtw_backtrace_walk.simps [of Delta D m n i j])
next
  case (after_copy_x i j)
  then obtain trace where
    "dtw_backtrace_walk Delta D m n 0 0 [] = dtw_backtrace_walk Delta D m n i j trace"
    by blast
  with after_copy_x walk_visits_inside [OF after_copy_x(1)] show ?case
    by (auto simp: dtw_backtrace_walk.simps [of Delta D m n i j])
qed

lemma tables_no_option_raises:
  assumes "walk_visits Delta D m n i j" and "no_option Delta D i j"
  shows "dtw_backtrace_tables Delta D m n = Inl NoOptionCoOptimal"
proof -
  from walk_visits_state [OF assms(1)] obtain trace where
    "dtw_backtrace_walk Delta D m n 0 0 [] = dtw_backtrace_walk Delta D m n i j trace" ..
  also from walk_visits_inside [OF assms(1)] assms(2)
  have "dtw_backtrace_walk Delta D m n i j trace = Inl NoOptionCoOptimal"
    by (simp add: dtw_backtrace_walk.simps [of Delta D m n i j] no_option_def)
  finally show ?thesis by (simp add: dtw_backtrace_tables_def)
qed

text \<open>
  Claim C4. If the backtrace comes to a cell at which no option costs what the stored
  optimum is, up to the tolerance, it stops with the error \<open>Internal error: No option
  is co-optimal\<close>: what \<open>dtw_backtrace\<close> hands to its caller is that error and no trace,
  whatever was traced before. \<open>D\<close> is the table that \<open>dtw_c\<close> filled for the pairwise
  costs of \<open>x\<close> and \<open>y\<close>; on it, no option is within the tolerance exactly when none of
  the three tests of the source passes.
\<close>

theorem dtw_backtrace_no_option_raises:
  assumes "dtw_c (pairwise_costs x y delta) (zeros (length x) (length y)) = Inr D"
    and "walk_visits (pairwise_costs x y delta) D (length x) (length y) i j"
    and "\<not> some_option_co_optimal (pairwise_costs x y delta) D i j"
  shows "dtw_backtrace x y delta = Inl NoOptionCoOptimal"
proof -
  from walk_visits_inside [OF assms(2)]
  have "recurrence_at (pairwise_costs x y delta) D i j"
    by (intro dtw_table_recurrence [OF assms(1)]) simp_all
  with assms(3) have "no_option (pairwise_costs x y delta) D i j"
    by (simp add: no_option_iff_none_co_optimal)
  from tables_no_option_raises [OF assms(2) this] assms(1) show ?thesis
    by (simp add: dtw_backtrace_def Let_def)
qed

text \<open>
  The theorem at \<open>x = [0, 0]\<close>, \<open>y = [0, 0]\<close> and a cost function that returns infinity
  for every pair: every entry of \<open>D\<close> is infinite, and at the first cell no option is
  within the tolerance of it.
\<close>

theorem dtw_backtrace_no_option_raises_witness:
  "dtw_c (pairwise_costs [0 :: nat, 0] [0 :: nat, 0] (\<lambda>a b. PosInf)) (zeros 2 2)
     = Inr [[PosInf, PosInf], [PosInf, PosInf]] \<and>
   walk_visits (pairwise_costs [0 :: nat, 0] [0 :: nat, 0] (\<lambda>a b. PosInf))
     [[PosInf, PosInf], [PosInf, PosInf]] 2 2 0 0 \<and>
   \<not> some_option_co_optimal (pairwise_costs [0 :: nat, 0] [0 :: nat, 0] (\<lambda>a b. PosInf))
     [[PosInf, PosInf], [PosInf, PosInf]] 0 0 \<and>
   dtw_backtrace [0 :: nat, 0] [0 :: nat, 0] (\<lambda>a b. PosInf) = Inl NoOptionCoOptimal"
proof -
  have t: "dtw_c (pairwise_costs [0 :: nat, 0] [0 :: nat, 0] (\<lambda>a b. PosInf)) (zeros (length [0 :: nat, 0]) (length [0 :: nat, 0]))
     = Inr [[PosInf, PosInf], [PosInf, PosInf]]"
    by (simp add: dtw_eval)
  have v: "walk_visits (pairwise_costs [0 :: nat, 0] [0 :: nat, 0] (\<lambda>a b. PosInf))
     [[PosInf, PosInf], [PosInf, PosInf]] (length [0 :: nat, 0]) (length [0 :: nat, 0]) 0 0"
    by (rule walk_visits.first_cell) simp_all
  have s: "\<not> some_option_co_optimal (pairwise_costs [0 :: nat, 0] [0 :: nat, 0] (\<lambda>a b. PosInf))
     [[PosInf, PosInf], [PosInf, PosInf]] 0 0"
    by (simp add: some_option_co_optimal_def within_tolerance_def mget_def)
  from t v s dtw_backtrace_no_option_raises [OF t v s] show ?thesis
    by (simp add: numeral_2_eq_2)
qed

text \<open>
  Conversely, the backtrace raises nothing else, and raises only at such a cell.
\<close>

lemma walk_error_only_then:
  assumes "dtw_backtrace_walk Delta D m n i j trace = Inl e"
    and "i < m - 1 \<and> j < n - 1 \<longrightarrow> walk_visits Delta D m n i j"
  shows "e = NoOptionCoOptimal \<and> (\<exists>i' j'. walk_visits Delta D m n i' j' \<and> no_option Delta D i' j')"
  using assms
proof (induction Delta D m n i j trace rule: dtw_backtrace_walk.induct)
  case (1 Delta D m n i j trace)
  from "1.prems"(1) have inside: "i < m - 1 \<and> j < n - 1"
    by (auto simp: dtw_backtrace_walk.simps [of Delta D m n i j trace] split: if_splits)
  with "1.prems"(2) have here: "walk_visits Delta D m n i j" by blast
  consider (a) "replacement_test Delta D i j"
    | (b) "\<not> replacement_test Delta D i j" "copy_y_test Delta D i j"
    | (c) "\<not> replacement_test Delta D i j" "\<not> copy_y_test Delta D i j" "copy_x_test Delta D i j"
    | (d) "no_option Delta D i j"
    unfolding no_option_def by blast
  then show ?case
  proof cases
    case a
    with inside "1.prems"(1)
    have "dtw_backtrace_walk Delta D m n (i + 1) (j + 1) (trace @ [(i, j)]) = Inl e"
      by (simp add: dtw_backtrace_walk.simps [of Delta D m n i j trace])
    moreover have "i + 1 < m - 1 \<and> j + 1 < n - 1 \<longrightarrow> walk_visits Delta D m n (i + 1) (j + 1)"
      using here a by (blast intro: walk_visits.after_replacement)
    ultimately show ?thesis using "1.IH"(1) [OF inside a] by blast
  next
    case b
    with inside "1.prems"(1)
    have "dtw_backtrace_walk Delta D m n (i + 1) j (trace @ [(i, j)]) = Inl e"
      by (simp add: dtw_backtrace_walk.simps [of Delta D m n i j trace])
    moreover have "i + 1 < m - 1 \<and> j < n - 1 \<longrightarrow> walk_visits Delta D m n (i + 1) j"
      using here b by (blast intro: walk_visits.after_copy_y)
    ultimately show ?thesis using "1.IH"(2) [OF inside b] by blast
  next
    case c
    with inside "1.prems"(1)
    have "dtw_backtrace_walk Delta D m n i (j + 1) (trace @ [(i, j)]) = Inl e"
      by (simp add: dtw_backtrace_walk.simps [of Delta D m n i j trace])
    moreover have "i < m - 1 \<and> j + 1 < n - 1 \<longrightarrow> walk_visits Delta D m n i (j + 1)"
      using here c by (blast intro: walk_visits.after_copy_x)
    ultimately show ?thesis using "1.IH"(3) [OF inside c] by blast
  next
    case d
    with inside "1.prems"(1) here show ?thesis
      by (auto simp: dtw_backtrace_walk.simps [of Delta D m n i j trace] no_option_def)
  qed
qed

lemma dtw_backtrace_error_only_then:
  assumes "dtw_backtrace_tables Delta D m n = Inl e"
  shows "e = NoOptionCoOptimal \<and> (\<exists>i j. walk_visits Delta D m n i j \<and> no_option Delta D i j)"
proof -
  from assms have "dtw_backtrace_walk Delta D m n 0 0 [] = Inl e"
    by (auto simp: dtw_backtrace_tables_def split: sum.splits prod.splits)
  moreover have "0 < m - 1 \<and> 0 < n - 1 \<longrightarrow> walk_visits Delta D m n 0 0"
    by (auto intro: walk_visits.first_cell)
  ultimately show ?thesis by (rule walk_error_only_then)
qed

subsection \<open>The trace is a warping path\<close>

lemma warp_prefix_extend:
  assumes "warp_prefix trace i j" and "unit_step (i, j) (i', j')"
  shows "warp_prefix (trace @ [(i, j)]) i' j'"
  using assms by (auto simp: warp_prefix_def successively_append_iff hd_append)

lemma walk_keeps_prefix:
  assumes "dtw_backtrace_walk Delta D m n i j trace = Inr (i', j', trace')"
    and "warp_prefix trace i j" and "i \<le> m - 1" and "j \<le> n - 1"
  shows "warp_prefix trace' i' j' \<and> i' \<le> m - 1 \<and> j' \<le> n - 1 \<and> (i' = m - 1 \<or> j' = n - 1)"
  using assms
proof (induction Delta D m n i j trace rule: dtw_backtrace_walk.induct)
  case (1 Delta D m n i j trace)
  show ?case
  proof (cases "i < m - 1 \<and> j < n - 1")
    case False
    with "1.prems" show ?thesis
      by (auto simp: dtw_backtrace_walk.simps [of Delta D m n i j trace])
  next
    case inside: True
    have diag: "warp_prefix (trace @ [(i, j)]) (i + 1) (j + 1)"
      and down: "warp_prefix (trace @ [(i, j)]) (i + 1) j"
      and right: "warp_prefix (trace @ [(i, j)]) i (j + 1)"
      using "1.prems"(2) by (auto intro!: warp_prefix_extend simp: unit_step_def)
    consider (a) "replacement_test Delta D i j"
      | (b) "\<not> replacement_test Delta D i j" "copy_y_test Delta D i j"
      | (c) "\<not> replacement_test Delta D i j" "\<not> copy_y_test Delta D i j" "copy_x_test Delta D i j"
      | (d) "\<not> replacement_test Delta D i j" "\<not> copy_y_test Delta D i j" "\<not> copy_x_test Delta D i j"
      by blast
    then show ?thesis
    proof cases
      case a
      with inside "1.prems"(1)
      have "dtw_backtrace_walk Delta D m n (i + 1) (j + 1) (trace @ [(i, j)]) = Inr (i', j', trace')"
        by (simp add: dtw_backtrace_walk.simps [of Delta D m n i j trace])
      from "1.IH"(1) [OF inside a this diag] inside show ?thesis by simp
    next
      case b
      with inside "1.prems"(1)
      have "dtw_backtrace_walk Delta D m n (i + 1) j (trace @ [(i, j)]) = Inr (i', j', trace')"
        by (simp add: dtw_backtrace_walk.simps [of Delta D m n i j trace])
      from "1.IH"(2) [OF inside b this down] inside show ?thesis by simp
    next
      case c
      with inside "1.prems"(1)
      have "dtw_backtrace_walk Delta D m n i (j + 1) (trace @ [(i, j)]) = Inr (i', j', trace')"
        by (simp add: dtw_backtrace_walk.simps [of Delta D m n i j trace])
      from "1.IH"(3) [OF inside c this right] inside show ?thesis by simp
    next
      case d
      with inside "1.prems"(1) show ?thesis
        by (simp add: dtw_backtrace_walk.simps [of Delta D m n i j trace])
    qed
  qed
qed

lemma rows_keeps_prefix:
  assumes "dtw_backtrace_rows m i j trace = (i', trace')"
    and "warp_prefix trace i j" and "i \<le> m - 1"
  shows "warp_prefix trace' i' j \<and> i' = m - 1"
  using assms
proof (induction m i j trace rule: dtw_backtrace_rows.induct)
  case (1 m i j trace)
  show ?case
  proof (cases "i < m - 1")
    case True
    with "1.prems"(1) have next_call: "dtw_backtrace_rows m (i + 1) j (trace @ [(i, j)]) = (i', trace')"
      by (simp add: dtw_backtrace_rows.simps [of m i j trace])
    have "warp_prefix (trace @ [(i, j)]) (i + 1) j"
      using "1.prems"(2) by (auto intro!: warp_prefix_extend simp: unit_step_def)
    moreover from True have "i + 1 \<le> m - 1" by simp
    ultimately show ?thesis using "1.IH" [OF True next_call] by blast
  next
    case False
    with "1.prems" show ?thesis
      by (auto simp: dtw_backtrace_rows.simps [of m i j trace])
  qed
qed

lemma cols_keeps_prefix:
  assumes "dtw_backtrace_cols n i j trace = (j', trace')"
    and "warp_prefix trace i j" and "j \<le> n - 1"
  shows "warp_prefix trace' i j' \<and> j' = n - 1"
  using assms
proof (induction n i j trace rule: dtw_backtrace_cols.induct)
  case (1 n i j trace)
  show ?case
  proof (cases "j < n - 1")
    case True
    with "1.prems"(1) have next_call: "dtw_backtrace_cols n i (j + 1) (trace @ [(i, j)]) = (j', trace')"
      by (simp add: dtw_backtrace_cols.simps [of n i j trace])
    have "warp_prefix (trace @ [(i, j)]) i (j + 1)"
      using "1.prems"(2) by (auto intro!: warp_prefix_extend simp: unit_step_def)
    moreover from True have "j + 1 \<le> n - 1" by simp
    ultimately show ?thesis using "1.IH" [OF True next_call] by blast
  next
    case False
    with "1.prems" show ?thesis
      by (auto simp: dtw_backtrace_cols.simps [of n i j trace])
  qed
qed

lemma successively_nth:
  "successively P xs \<Longrightarrow> Suc k < length xs \<Longrightarrow> P (xs ! k) (xs ! Suc k)"
proof (induction xs arbitrary: k)
  case Nil
  then show ?case by simp
next
  case (Cons x xs)
  then show ?case
    by (cases k; cases xs) (auto simp: successively_Cons)
qed

lemma tables_warping_path:
  assumes "dtw_backtrace_tables Delta D m n = Inr trace"
  shows "hd trace = (0, 0) \<and> last trace = (m - 1, n - 1) \<and> successively unit_step trace"
proof -
  from assms obtain i j t1 where walk: "dtw_backtrace_walk Delta D m n 0 0 [] = Inr (i, j, t1)"
    by (auto simp: dtw_backtrace_tables_def split: sum.splits)
  obtain i' t2 where rows: "dtw_backtrace_rows m i j t1 = (i', t2)"
    by (cases "dtw_backtrace_rows m i j t1")
  obtain j' t3 where cols: "dtw_backtrace_cols n i' j t2 = (j', t3)"
    by (cases "dtw_backtrace_cols n i' j t2")
  from assms walk rows cols have trace: "trace = t3 @ [(m - 1, n - 1)]"
    by (simp add: dtw_backtrace_tables_def)
  have "warp_prefix [] 0 0" by (simp add: warp_prefix_def)
  from walk_keeps_prefix [OF walk this]
  have p1: "warp_prefix t1 i j" and "i \<le> m - 1" and "j \<le> n - 1" by blast+
  from rows_keeps_prefix [OF rows p1 \<open>i \<le> m - 1\<close>]
  have p2: "warp_prefix t2 i' j" and "i' = m - 1" by blast+
  from cols_keeps_prefix [OF cols p2 \<open>j \<le> n - 1\<close>]
  have "warp_prefix t3 i' j'" and "j' = n - 1" by blast+
  with \<open>i' = m - 1\<close> trace show ?thesis by (simp add: warp_prefix_def)
qed

text \<open>
  Claim C10. For \<open>x\<close> of length \<open>m \<ge> 1\<close> and \<open>y\<close> of length \<open>n \<ge> 1\<close>, both lengths
  within the range of the C int that holds them, when at every cell the first loop
  visits one of the three tests of the source passes (the test by which the source
  takes an option for co-optimal), \<open>dtw_backtrace(x, y, delta)\<close> returns a trace; the
  trace starts at \<open>(0, 0)\<close>, ends at \<open>(m - 1, n - 1)\<close>, and from each entry to the next
  neither index decreases, neither grows by more than one, and at least one grows.
  \<open>D\<close> is the table that \<open>dtw_c\<close> filled for the pairwise costs of \<open>x\<close> and \<open>y\<close>. The
  hypothesis is about the outcome of the tests only, so the theorem does not depend on
  how their sums are computed.
\<close>

theorem dtw_backtrace_warping_path:
  assumes "x \<noteq> []" and "y \<noteq> []"
    and "length x < 2 ^ 31" and "length y < 2 ^ 31"
    and "dtw_c (pairwise_costs x y delta) (zeros (length x) (length y)) = Inr D"
    and "\<forall>i j. walk_visits (pairwise_costs x y delta) D (length x) (length y) i j \<longrightarrow>
           \<not> no_option (pairwise_costs x y delta) D i j"
  shows "\<exists>trace. dtw_backtrace x y delta = Inr trace \<and>
           hd trace = (0, 0) \<and> last trace = (length x - 1, length y - 1) \<and>
           (\<forall>k. Suc k < length trace \<longrightarrow> unit_step (trace ! k) (trace ! Suc k))"
proof -
  let ?Delta = "pairwise_costs x y delta"
  let ?r = "dtw_backtrace_tables ?Delta D (length x) (length y)"
  have run: "dtw_backtrace x y delta = ?r"
    using assms(5) by (simp add: dtw_backtrace_def Let_def)
  show ?thesis
  proof (cases ?r)
    case (Inl e)
    from dtw_backtrace_error_only_then [OF this] assms(6) show ?thesis by blast
  next
    case (Inr trace)
    from tables_warping_path [OF this] run Inr show ?thesis
      by (auto intro: successively_nth)
  qed
qed

text \<open>
  The theorem at \<open>x = [0, 0, 0]\<close>, \<open>y = [0, 5]\<close>, \<open>delta(a, b) = |a - b|\<close>, where the
  trace is \<open>[(0, 0), (1, 1), (2, 1)]\<close>. The first loop runs inside the cells
  \<open>(0, 0)\<close> and \<open>(1, 0)\<close>; at both \<open>D[i, j] = 5\<close> is below the sum of the first test
  (\<open>10.00001\<close> and \<open>5.00001\<close>), so the first test passes.
\<close>

theorem dtw_backtrace_warping_path_witness:
  "dtw_backtrace [0, 0, 0] [0, 5] (\<lambda>a b. Finite \<bar>a - b\<bar>) = Inr [(0, 0), (1, 1), (2, 1)] \<and>
   length [0, 0, 0 :: real] < 2 ^ 31 \<and> length [0, 5 :: real] < 2 ^ 31 \<and>
   hd [(0, 0), (1, 1), (2, 1)] = (0 :: nat, 0 :: nat) \<and>
   last [(0, 0), (1, 1), (2, 1)] = (length [0, 0, 0 :: real] - 1, length [0, 5 :: real] - 1) \<and>
   unit_step (0, 0) (1, 1) \<and> unit_step (1, 1) (2, 1)"
proof -
  let ?x = "[0, 0, 0 :: real]" and ?y = "[0, 5 :: real]"
  let ?delta = "\<lambda>a b :: real. Finite \<bar>a - b\<bar>"
  let ?D = "[[Finite 5, Finite 15], [Finite 5, Finite 10], [Finite 5, Finite 5]]"
  have table: "dtw_c (pairwise_costs ?x ?y ?delta) (zeros (length ?x) (length ?y)) = Inr ?D"
    by (simp add: dtw_eval)
  have short: "length ?x < 2 ^ 31" "length ?y < 2 ^ 31"
    by simp_all
  have first: "replacement_test (pairwise_costs ?x ?y ?delta) ?D 0 0"
    and second: "replacement_test (pairwise_costs ?x ?y ?delta) ?D 1 0"
    by (simp_all add: dtw_eval)
  have inside: "(i = 0 \<or> i = 1) \<and> j = 0"
    if "walk_visits (pairwise_costs ?x ?y ?delta) ?D (length ?x) (length ?y) i j" for i j
    using walk_visits_inside [OF that] by auto
  have passes: "\<forall>i j. walk_visits (pairwise_costs ?x ?y ?delta) ?D (length ?x) (length ?y) i j \<longrightarrow>
      \<not> no_option (pairwise_costs ?x ?y ?delta) ?D i j"
    using inside first second unfolding no_option_def by blast
  have run: "dtw_backtrace ?x ?y ?delta = Inr [(0, 0), (1, 1), (2, 1)]"
    by (simp add: dtw_eval)
  from dtw_backtrace_warping_path [OF _ _ short table passes] run
  have "hd [(0, 0), (1, 1), (2, 1)] = (0 :: nat, 0 :: nat)"
    and "last [(0, 0), (1, 1), (2, 1)] = (length ?x - 1, length ?y - 1)"
    and steps: "\<forall>k. Suc k < length [(0 :: nat, 0 :: nat), (1, 1), (2, 1)] \<longrightarrow>
       unit_step ([(0, 0), (1, 1), (2, 1)] ! k) ([(0, 0), (1, 1), (2, 1)] ! Suc k)"
    by simp_all
  moreover from steps have "unit_step (0, 0) (1, 1)"
    by (drule_tac x = 0 in spec) simp
  moreover from steps have "unit_step (1, 1) (2, 1)"
    by (drule_tac x = 1 in spec) simp
  ultimately show ?thesis using run short by simp
qed

section \<open>Properties of the tree edits\<close>

declare last_descendant.simps [simp del]

text \<open>
  Claim C7. Applying \<open>Insertion(0, 0, 'd', 1)\<close> to the tree \<open>a(b, c)\<close>, with nodes
  \<open>[a, b, c]\<close> and adjacency \<open>[[1, 2], [], []]\<close>, yields the tree \<open>a(d(b), c)\<close>: its
  nodes in preorder are \<open>[a, d, b, c]\<close> and its adjacency is \<open>[[1, 3], [2], [], []]\<close>,
  so the new node is the first child of node 0 and the one child it adopted is its
  only child.
\<close>

theorem insertion_example:
  "tree_to_string ([''a'', ''b'', ''c''], [[1, 2], [], []]) = Some ''a(b, c)'' \<and>
   apply_edit (Insertion 0 0 ''d'' 1) ([''a'', ''b'', ''c''], [[1, 2], [], []])
     = Inr ([''a'', ''d'', ''b'', ''c''], [[1, 3], [2], [], []]) \<and>
   tree_to_string ([''a'', ''d'', ''b'', ''c''], [[1, 3], [2], [], []]) = Some ''a(d(b), c)''"
  by (simp add: apply_insertion_def shift_up_def Let_def tree_to_string_def)

text \<open>
  Claim C8. Applying \<open>Deletion(1)\<close> to the tree \<open>a(d(b), c)\<close>, with nodes \<open>[a, d, b, c]\<close>
  and adjacency \<open>[[1, 3], [2], [], []]\<close>, yields the tree \<open>a(b, c)\<close>, with nodes
  \<open>[a, b, c]\<close> and adjacency \<open>[[1, 2], [], []]\<close>: the child of the deleted node stands
  where the deleted node stood, before its former sibling.
\<close>

theorem deletion_example:
  "tree_to_string ([''a'', ''d'', ''b'', ''c''], [[1, 3], [2], [], []]) = Some ''a(d(b), c)'' \<and>
   apply_edit (Deletion 1) ([''a'', ''d'', ''b'', ''c''], [[1, 3], [2], [], []])
     = Inr ([''a'', ''b'', ''c''], [[1, 2], [], []]) \<and>
   tree_to_string ([''a'', ''b'', ''c''], [[1, 2], [], []]) = Some ''a(b, c)''"
  by (simp add: apply_deletion_def shift_down_def Let_def tree_to_string_def)

text \<open>
  The script that the notebook prints for the trees \<open>a(b(c, d), e)\<close> and \<open>a(c(d))\<close>,
  \<open>[rep(1, c), del(4), del(2)]\<close>, turns the first tree into the second under these
  definitions as well.
\<close>

lemma script_example:
  "tree_to_string ([''a'', ''b'', ''c'', ''d'', ''e''], [[1, 4], [2, 3], [], [], []])
     = Some ''a(b(c, d), e)'' \<and>
   apply_script [Replacement 1 ''c'', Deletion 4, Deletion 2]
       ([''a'', ''b'', ''c'', ''d'', ''e''], [[1, 4], [2, 3], [], [], []])
     = Inr ([''a'', ''c'', ''d''], [[1], [2], []]) \<and>
   tree_to_string ([''a'', ''c'', ''d''], [[1], [2], []]) = Some ''a(c(d))''"
  by (simp add: apply_replacement_def apply_deletion_def shift_down_def Let_def
      tree_to_string_def)

end
